theory Spec2Isabelle
  imports Complex_Main "HOL-Library.Sublist" "HOL-Library.Product_Lexorder" "HOL-Library.Multiset"
begin

section \<open>Python values\<close>

text \<open>
  The scripts read JSON documents with \<^verbatim>\<open>json.load\<close> and walk them with
  \<^verbatim>\<open>dict.get\<close>, \<^verbatim>\<open>isinstance\<close>, \<^verbatim>\<open>len\<close> and truth tests. A parsed
  document is a value of \<open>json\<close>. A dict is an association list in insertion order whose
  first binding of a key is the one \<^verbatim>\<open>get\<close> sees; a number is its numeric value
  (\<^verbatim>\<open>int\<close> and finite \<^verbatim>\<open>float\<close> alike); strings are lists of code points below
  256. Where the code compares parsed values (the membership test of the index builder),
  the model uses \<open>py_eq\<close> below, Python's \<^verbatim>\<open>==\<close>.
\<close>

datatype json =
    JNull
  | JBool bool
  | JNum real
  | JStr string
  | JArr "json list"
  | JObj "(string \<times> json) list"

text \<open>The exceptions the modelled code can meet.\<close>

datatype exn = TypeError | AttributeError | JSONDecodeError | OSError

text \<open>Sequencing of computations that may raise: the first exception wins.\<close>

definition bnd :: "exn + 'a \<Rightarrow> ('a \<Rightarrow> exn + 'b) \<Rightarrow> exn + 'b" where
  "bnd m f = (case m of Inl e \<Rightarrow> Inl e | Inr v \<Rightarrow> f v)"

text \<open>\<^verbatim>\<open>bool(v)\<close>: None, False, zero and empty containers are false.\<close>

fun truthy :: "json \<Rightarrow> bool" where
  "truthy JNull = False"
| "truthy (JBool b) = b"
| "truthy (JNum n) = (n \<noteq> 0)"
| "truthy (JStr s) = (s \<noteq> [])"
| "truthy (JArr xs) = (xs \<noteq> [])"
| "truthy (JObj kvs) = (kvs \<noteq> [])"

text \<open>\<^verbatim>\<open>isinstance(v, dict)\<close> and \<^verbatim>\<open>isinstance(v, list)\<close>.\<close>

fun is_dict :: "json \<Rightarrow> bool" where
  "is_dict (JObj kvs) = True"
| "is_dict v = False"

fun is_list :: "json \<Rightarrow> bool" where
  "is_list (JArr xs) = True"
| "is_list v = False"

text \<open>\<^verbatim>\<open>d.get(k, default)\<close> on a dict.\<close>

definition dget :: "(string \<times> json) list \<Rightarrow> string \<Rightarrow> json \<Rightarrow> json" where
  "dget kvs k dflt = (case map_of kvs k of None \<Rightarrow> dflt | Some v \<Rightarrow> v)"

text \<open>\<^verbatim>\<open>v.get(k, default)\<close> on any value: only a dict has the attribute.\<close>

fun py_get :: "json \<Rightarrow> string \<Rightarrow> json \<Rightarrow> exn + json" where
  "py_get (JObj kvs) k dflt = Inr (dget kvs k dflt)"
| "py_get v k dflt = Inl AttributeError"

text \<open>\<^verbatim>\<open>len(v)\<close>: a dict counts its keys; None, booleans and numbers have no length.\<close>

fun py_len :: "json \<Rightarrow> exn + int" where
  "py_len (JStr s) = Inr (int (length s))"
| "py_len (JArr xs) = Inr (int (length xs))"
| "py_len (JObj kvs) = Inr (int (length (remdups (map fst kvs))))"
| "py_len v = Inl TypeError"



text \<open>
  The numeric value of a number or a boolean (\<^verbatim>\<open>True\<close> is 1, \<^verbatim>\<open>False\<close> is 0);
  no other value is a number.
\<close>

fun num_val :: "json \<Rightarrow> real option" where
  "num_val (JBool b) = Some (if b then 1 else 0)"
| "num_val (JNum n) = Some n"
| "num_val v = None"

text \<open>
  \<^verbatim>\<open>x == y\<close> on parsed values: numbers and booleans are equal when their numeric
  values are, strings when they are the same string, lists when they have the same
  length and equal items, dicts when they have the same keys and equal values under each
  key, \<^verbatim>\<open>None\<close> only to itself; values of different kinds are not equal.
\<close>

function py_eq :: "json \<Rightarrow> json \<Rightarrow> bool" where
  "py_eq JNull y = (y = JNull)"
| "py_eq (JBool b) y = (num_val y = Some (if b then 1 else 0))"
| "py_eq (JNum n) y = (num_val y = Some n)"
| "py_eq (JStr s) y = (y = JStr s)"
| "py_eq (JArr xs) y =
     (case y of
        JArr ys \<Rightarrow> length xs = length ys \<and> (\<forall>i < length xs. py_eq (xs ! i) (ys ! i))
      | _ \<Rightarrow> False)"
| "py_eq (JObj kvs) y =
     (case y of
        JObj kws \<Rightarrow>
          fst ` set kvs = fst ` set kws \<and>
          (\<forall>k \<in> fst ` set kvs. py_eq (the (map_of kvs k)) (the (map_of kws k)))
      | _ \<Rightarrow> False)"
  by pat_completeness auto
termination
proof (relation "measure (\<lambda>(x, y). size x)", goal_cases)
  case 1
  show ?case by simp
next
  case (2 xs y ys i)
  then have "xs ! i \<in> set xs" by simp
  then have "size (xs ! i) < Suc (size_list size xs)"
    by (simp add: less_Suc_eq_le size_list_estimation')
  then show ?case by simp
next
  case (3 kvs y kws k)
  then obtain v where v: "map_of kvs k = Some v"
    by (metis domD dom_map_of_conv_image_fst)
  have "map_of ps k = Some v \<Longrightarrow> size v < Suc (size_list (size_prod (\<lambda>x. 0) size) ps)" for ps
    by (induction ps) (auto split: if_splits)
  from this[OF v] show ?case using v by simp
qed

section \<open>Strings\<close>

text \<open>
  \<^verbatim>\<open>str.isspace\<close> for one code point below 256 (the class that \<^verbatim>\<open>str.strip\<close>
  removes and that \<^verbatim>\<open>\s\<close> matches): TAB to CR, FS to US, space, NEL and NBSP.
\<close>

definition is_space :: "char \<Rightarrow> bool" where
  "is_space c = (let n = (of_char c :: nat) in
     (9 \<le> n \<and> n \<le> 13) \<or> (28 \<le> n \<and> n \<le> 32) \<or> n = 133 \<or> n = 160)"

text \<open>\<^verbatim>\<open>str.lower\<close> for one code point below 256.\<close>

definition lower_char :: "char \<Rightarrow> char" where
  "lower_char c = (let n = (of_char c :: nat) in
     if (65 \<le> n \<and> n \<le> 90) \<or> (192 \<le> n \<and> n \<le> 222 \<and> n \<noteq> 215)
     then char_of (n + 32) else c)"

definition lower :: "string \<Rightarrow> string" where
  "lower s = map lower_char s"

text \<open>\<^verbatim>\<open>str.strip()\<close>.\<close>

definition strip :: "string \<Rightarrow> string" where
  "strip s = rev (dropWhile is_space (rev (dropWhile is_space s)))"

text \<open>\<^verbatim>\<open>re.sub(r"\s+", " ", s)\<close>: every maximal run of whitespace becomes one space.\<close>

function collapse_ws :: "string \<Rightarrow> string" where
  "collapse_ws [] = []"
| "collapse_ws (c # cs) =
     (if is_space c then CHR '' '' # collapse_ws (dropWhile is_space cs)
      else c # collapse_ws cs)"
  by pat_completeness auto
termination
  by (relation "measure length") (auto simp: le_imp_less_Suc length_dropWhile_le)

text \<open>\<^verbatim>\<open>_normalize_symptom\<close> (orphanet_index.py).\<close>

definition normalize_symptom :: "string \<Rightarrow> string" where
  "normalize_symptom term = (if term \<noteq> [] then collapse_ws (lower (strip term)) else [])"

section \<open>The symptom index and its queries\<close>

text \<open>
  \<^verbatim>\<open>SymptomIndex._symptom_to_diseases\<close> has the declared type
  \<^verbatim>\<open>dict[str, list[tuple[str, str, str, str]]]\<close>: a bucket entry is
  (orpha_code, disease_name, frequency, hpo_id). The dict is an association list in
  insertion order.
\<close>

type_synonym entry = "string \<times> string \<times> string \<times> string"
type_synonym triple = "string \<times> string \<times> string"
type_synonym sindex = "(string \<times> entry list) list"

text \<open>
  The loop \<^verbatim>\<open>for orpha, name, freq, _ in entries: result.add((orpha, name, freq))\<close>.
\<close>

fun add_entries :: "entry list \<Rightarrow> triple set \<Rightarrow> triple set" where
  "add_entries [] result = result"
| "add_entries ((orpha, name, freq, hid) # es) result =
     add_entries es (insert (orpha, name, freq) result)"

text \<open>
  The fallback loop over \<^verbatim>\<open>self._symptom_to_diseases.items()\<close>; \<^verbatim>\<open>a in b\<close> on
  strings is \<open>sublist a b\<close>.
\<close>

fun fallback_scan :: "sindex \<Rightarrow> string \<Rightarrow> triple set \<Rightarrow> triple set" where
  "fallback_scan [] nrm result = result"
| "fallback_scan ((key, entries) # rest) nrm result =
     fallback_scan rest nrm
       (if sublist nrm key \<or> sublist key nrm then add_entries entries result else result)"

text \<open>\<^verbatim>\<open>SymptomIndex._diseases_for_symptom\<close>.\<close>

definition diseases_for_symptom :: "sindex \<Rightarrow> string \<Rightarrow> triple set" where
  "diseases_for_symptom idx symptom =
     (let nrm = normalize_symptom symptom in
      if nrm = [] then {}
      else
        let direct = (case map_of idx nrm of None \<Rightarrow> [] | Some es \<Rightarrow> es);
            result = add_entries direct {}
        in if result = {} then fallback_scan idx nrm result else result)"

text \<open>The loop of \<^verbatim>\<open>query\<close> that keeps the non-empty per-term sets, in order.\<close>

fun collect_sets :: "sindex \<Rightarrow> string list \<Rightarrow> triple set list" where
  "collect_sets idx [] = []"
| "collect_sets idx (s # ss) =
     (let ds = diseases_for_symptom idx s
      in if ds \<noteq> {} then ds # collect_sets idx ss else collect_sets idx ss)"

text \<open>
  \<^verbatim>\<open>set.intersection\<close> and \<^verbatim>\<open>set.union\<close> called on the unpacked, non-empty
  list \<^verbatim>\<open>sets\<close>: the first set combined with the others in turn.
\<close>

definition set_intersection :: "triple set list \<Rightarrow> triple set" where
  "set_intersection sets = fold (\<lambda>s acc. acc \<inter> s) (tl sets) (hd sets)"

definition set_union :: "triple set list \<Rightarrow> triple set" where
  "set_union sets = fold (\<lambda>s acc. acc \<union> s) (tl sets) (hd sets)"

text \<open>The set \<^verbatim>\<open>common\<close> of \<^verbatim>\<open>query\<close>; the early returns of an empty list give no triple.\<close>

definition query_common :: "sindex \<Rightarrow> string list \<Rightarrow> bool \<Rightarrow> triple set" where
  "query_common idx symptoms match_all =
     (if symptoms = [] then {}
      else
        let sets = collect_sets idx symptoms in
        if sets = [] then {}
        else if match_all then
          (if length sets > 1 then set_intersection sets else hd sets)
        else set_union sets)"

record result_rec =
  orpha_code :: string
  disease_name :: string
  matched_symptoms :: "string list"
  frequency :: string
  orpha_url :: string

definition make_result :: "string list \<Rightarrow> triple \<Rightarrow> result_rec" where
  "make_result symptoms t =
     (case t of (orpha, name, freq) \<Rightarrow>
        \<lparr> orpha_code = orpha, disease_name = name, matched_symptoms = symptoms,
          frequency = freq,
          orpha_url = ''https://www.orpha.net/consor/cgi-bin/OC_Exp.php?lng=en&Expert='' @ orpha \<rparr>)"

text \<open>
  \<^verbatim>\<open>SymptomIndex.query\<close>. The returned list holds one record per element of
  \<^verbatim>\<open>common\<close>, in the iteration order of a Python set, which the language leaves
  open: the result is the set of its records.
\<close>

definition query :: "sindex \<Rightarrow> string list \<Rightarrow> bool \<Rightarrow> result_rec set" where
  "query idx symptoms match_all = make_result symptoms ` query_common idx symptoms match_all"

text \<open>A result record compared as a (code, name, frequency) triple.\<close>

definition result_triple :: "result_rec \<Rightarrow> triple" where
  "result_triple r = (orpha_code r, disease_name r, frequency r)"

text \<open>An index entry collapsed to a triple by dropping the phenotype term id.\<close>

fun entry_triple :: "entry \<Rightarrow> triple" where
  "entry_triple (orpha, name, freq, hid) = (orpha, name, freq)"

text \<open>
  The substring scan in the words of the specification: the diseases of every indexed key
  that contains the normalized query or is contained in it.
\<close>

definition spec_substring_scan :: "sindex \<Rightarrow> string \<Rightarrow> triple set" where
  "spec_substring_scan idx nrm =
     {t. \<exists>key entries. (key, entries) \<in> set idx \<and> (sublist nrm key \<or> sublist key nrm) \<and>
          t \<in> entry_triple ` set entries}"

section \<open>The checkpointed fetch orchestrator (fetch_all_checkpointed.py)\<close>

datatype param = PStr string | PInt int

type_synonym kwargs = "(string \<times> param) list"

text \<open>A job of \<^verbatim>\<open>CONFIG\<close>: key, display name and keyword arguments.\<close>

type_synonym job = "string \<times> string \<times> kwargs"

definition CONFIG :: "job list" where
  "CONFIG =
    [(''orphanet'', ''Orphanet'', [(''dataset'', PStr ''phenotypes'')]),
     (''pubmed'', ''PubMed'', [(''term'', PStr ''rare disease''), (''max_records'', PInt 5000)]),
     (''pmc'', ''PMC'', [(''term'', PStr ''rare disease''), (''max_records'', PInt 2000)]),
     (''openfda_label'', ''OpenFDA (labels)'',
        [(''endpoint'', PStr ''label''), (''max_records'', PInt 25000)]),
     (''openfda_event'', ''OpenFDA (events)'',
        [(''endpoint'', PStr ''event''), (''max_records'', PInt 25000)]),
     (''rxnorm'', ''RxNorm'', [(''query'', PStr ''aspirin''), (''max_records'', PInt 100)]),
     (''who'', ''WHO'', [(''endpoint'', PStr ''documents''), (''limit'', PInt 200)]),
     (''ncbi_bookshelf'', ''NCBI Bookshelf'',
        [(''term'', PStr ''pharmacology''), (''max_records'', PInt 100)]),
     (''openstax'', ''OpenStax (pharmacology)'', [(''book'', PStr ''pharmacology'')])]"

record checkpoint =
  cp_completed :: "string list"
  cp_last_error :: "string option"

text \<open>
  The checkpoint file: absent, present with text that \<^verbatim>\<open>json.loads\<close> rejects, or
  holding a document \<^verbatim>\<open>{"completed": [...], "last_error": ...}\<close> as
  \<^verbatim>\<open>save_checkpoint\<close> writes it.
\<close>

datatype cp_file = Missing | Corrupt | Stored checkpoint

definition load_checkpoint :: "cp_file \<Rightarrow> checkpoint" where
  "load_checkpoint f =
     (case f of
        Stored cp \<Rightarrow> cp
      | Corrupt \<Rightarrow> \<lparr> cp_completed = [], cp_last_error = None \<rparr>
      | Missing \<Rightarrow> \<lparr> cp_completed = [], cp_last_error = None \<rparr>)"

text \<open>\<^verbatim>\<open>save_checkpoint\<close> replaces the content of the file; the write is taken to succeed.\<close>

definition save_checkpoint :: "string list \<Rightarrow> string option \<Rightarrow> cp_file" where
  "save_checkpoint completed_keys last_error =
     Stored \<lparr> cp_completed = completed_keys, cp_last_error = last_error \<rparr>"

text \<open>
  What \<^verbatim>\<open>fetcher.fetch\<close>, called with the job's keyword arguments, does: it returns, or it raises an
  \<^verbatim>\<open>Exception\<close> of some type name and message. The collaborator behind each key is
  a parameter of the run.
\<close>

datatype outcome = Returned | Raised string string

type_synonym fetcher = "string \<Rightarrow> kwargs \<Rightarrow> outcome"

text \<open>
  The state of a run: the list \<^verbatim>\<open>completed\<close>, the checkpoint file, and the log of
  the collaborator calls made so far.
\<close>

record run_state =
  completed :: "string list"
  cpfile :: cp_file
  invoked :: "(string \<times> kwargs) list"

text \<open>
  The loop over the jobs (lines 82 to 98). The first component of the result is the
  code of \<^verbatim>\<open>sys.exit(1)\<close> when a job failed, and \<open>None\<close> when the loop ran through.
\<close>

fun run_jobs :: "fetcher \<Rightarrow> job list \<Rightarrow> run_state \<Rightarrow> int option \<times> run_state" where
  "run_jobs fetch [] st = (None, st)"
| "run_jobs fetch ((key, name, kw) # rest) st =
     (if key \<in> set (completed st) then run_jobs fetch rest st
      else
        (case fetch key kw of
           Returned \<Rightarrow>
             run_jobs fetch rest
               (st \<lparr> completed := completed st @ [key],
                     cpfile := save_checkpoint (completed st @ [key]) None,
                     invoked := invoked st @ [(key, kw)] \<rparr>)
         | Raised tname msg \<Rightarrow>
             (Some 1,
              st \<lparr> cpfile := save_checkpoint (completed st) (Some (tname @ '': '' @ msg)),
                    invoked := invoked st @ [(key, kw)] \<rparr>)))"

text \<open>The start of \<^verbatim>\<open>main\<close>: load the checkpoint, and clear it under \<^verbatim>\<open>--reset\<close>.\<close>

definition start_state :: "bool \<Rightarrow> cp_file \<Rightarrow> run_state" where
  "start_state reset f =
     (if reset then \<lparr> completed = [], cpfile = save_checkpoint [] None, invoked = [] \<rparr>
      else \<lparr> completed = cp_completed (load_checkpoint f), cpfile = f, invoked = [] \<rparr>)"

text \<open>\<^verbatim>\<open>main\<close> of fetch_all_checkpointed.py: the exit code and the final state.\<close>

definition fetch_all_checkpointed_main :: "bool \<Rightarrow> cp_file \<Rightarrow> fetcher \<Rightarrow> int \<times> run_state" where
  "fetch_all_checkpointed_main reset f fetch =
     (case run_jobs fetch CONFIG (start_state reset f) of
        (Some code, st) \<Rightarrow> (code, st)
      | (None, st) \<Rightarrow> (0, st \<lparr> cpfile := save_checkpoint (completed st) None \<rparr>))"

section \<open>The deduplicator (cleanup_duplicate_raw.py)\<close>

text \<open>
  A candidate file: its path, what \<^verbatim>\<open>json.load\<close> makes of it (\<open>None\<close> when opening
  or parsing raises) and its modification time. \<^verbatim>\<open>st_mtime\<close> is a finite float,
  which is a real number; the code only negates and compares it, and both are exact.
  A file that \<^verbatim>\<open>glob\<close> lists is there until \<^verbatim>\<open>main\<close> unlinks it: \<^verbatim>\<open>stat\<close> and
  \<^verbatim>\<open>unlink\<close>, which \<^verbatim>\<open>main\<close> calls outside any \<^verbatim>\<open>try\<close>, succeed on it.
\<close>

record raw_file =
  path :: string
  content :: "json option"
  mtime :: real

text \<open>The body of the \<^verbatim>\<open>try\<close> of \<^verbatim>\<open>record_count\<close> once the file is parsed.\<close>

definition count_records :: "json \<Rightarrow> string \<Rightarrow> exn + int" where
  "count_records data source =
     bnd (py_get data ''data'' data) (\<lambda>body.
       if source = ''pubmed'' then bnd (py_get body ''articles'' (JArr [])) py_len
       else if source = ''pmc'' then bnd (py_get body ''articles'' (JArr [])) py_len
       else if source = ''openfda'' then bnd (py_get body ''results'' (JArr [])) py_len
       else if source = ''rxnorm'' then
         bnd (bnd (py_get body ''drugs'' (JArr [])) py_len) (\<lambda>n.
           if n \<noteq> 0 then Inr n
           else
             bnd (py_get body ''raw_response'' (JObj [])) (\<lambda>r.
             bnd (py_get r ''approximateGroup'' (JObj [])) (\<lambda>g.
             bnd (py_get g ''candidate'' (JArr [])) py_len)))
       else if source = ''who'' then
         bnd (if is_list body then py_get body ''results'' body
              else py_get body ''items'' (JArr [])) py_len
       else if source = ''ncbi_bookshelf'' then bnd (py_get body ''books'' (JArr [])) py_len
       else if source = ''orphanet'' then
         bnd (py_get body ''HPODisorderSetStatusList'' (JObj [])) (\<lambda>a.
         bnd (if truthy a then Inr a else py_get body ''data'' (JObj [])) (\<lambda>st.
         bnd (py_get st ''HPODisorderSetStatus'' (JArr [])) (\<lambda>disorders.
           if is_list disorders then py_len disorders else Inr 1)))
       else if source = ''openstax'' then bnd (py_get body ''chapters'' (JArr [])) py_len
       else Inr 0)"

text \<open>\<^verbatim>\<open>record_count\<close>: every exception of the body gives -1.\<close>

definition record_count :: "json option \<Rightarrow> string \<Rightarrow> string \<Rightarrow> int" where
  "record_count file_content source subdir =
     (case file_content of
        None \<Rightarrow> - 1
      | Some data \<Rightarrow> (case count_records data source of Inl e \<Rightarrow> - 1 | Inr n \<Rightarrow> n))"

definition SOURCES :: "(string \<times> string) list" where
  "SOURCES =
    [(''pubmed'', ''''), (''pmc'', ''''), (''openfda'', ''label''), (''openfda'', ''event''),
     (''rxnorm'', ''''), (''who'', ''documents''), (''ncbi_bookshelf'', ''sections''),
     (''orphanet'', ''phenotypes''), (''openstax'', ''extracted'')]"

text \<open>
  The sort key of \<^verbatim>\<open>main\<close>. \<^verbatim>\<open>source.split("/")[0] if "/" in source else source\<close>
  is the part of \<^verbatim>\<open>source\<close> before its first slash. Pairs are compared as Python
  compares tuples, first components first.
\<close>

definition rank_key :: "string \<Rightarrow> string \<Rightarrow> raw_file \<Rightarrow> int \<times> real" where
  "rank_key source subdir p =
     (- record_count (content p) (takeWhile (\<lambda>c. c \<noteq> CHR ''/'') source) subdir, - mtime p)"

text \<open>
  One directory: the files \<^verbatim>\<open>glob\<close> lists, in the order it lists them. The result is
  the file kept, if the directory is ranked at all, and the files unlinked.
  \<^verbatim>\<open>sorted\<close> is stable, as \<open>sort_key\<close> is.
\<close>

definition dedup_dir :: "string \<Rightarrow> string \<Rightarrow> raw_file list \<Rightarrow> raw_file option \<times> raw_file list" where
  "dedup_dir source subdir files =
     (if length files \<le> 1 then (None, [])
      else
        let ordered = sort_key (rank_key source subdir) files
        in (Some (hd ordered), tl ordered))"

text \<open>
  The raw tree: for a (source, subdirectory) pair, the JSON files of its directory, or
  \<open>None\<close> when the directory does not exist.
\<close>

type_synonym raw_tree = "string \<times> string \<Rightarrow> raw_file list option"

record dedup_state =
  tree :: raw_tree
  kept :: "string list"
  deleted :: "raw_file list"

definition dedup_step :: "string \<times> string \<Rightarrow> dedup_state \<Rightarrow> dedup_state" where
  "dedup_step sd st =
     (case tree st sd of
        None \<Rightarrow> st
      | Some files \<Rightarrow>
          (case dedup_dir (fst sd) (snd sd) files of
             (None, to_remove) \<Rightarrow> st
           | (Some keep, to_remove) \<Rightarrow>
               \<lparr> tree = (tree st)(sd \<mapsto> filter (\<lambda>p. path p \<notin> path ` set to_remove) files),
                 kept = kept st @ [path keep],
                 deleted = deleted st @ to_remove \<rparr>))"

text \<open>\<^verbatim>\<open>main\<close> of cleanup_duplicate_raw.py.\<close>

definition cleanup_duplicate_raw_main :: "raw_tree \<Rightarrow> dedup_state" where
  "cleanup_duplicate_raw_main t = fold dedup_step SOURCES \<lparr> tree = t, kept = [], deleted = [] \<rparr>"

section \<open>The manifest pruner (cleanup_metadata.py)\<close>

text \<open>
  The body of the \<^verbatim>\<open>try\<close> for one raw file: the identifier added to
  \<^verbatim>\<open>kept_ids\<close>, if any. A list or a dict is not hashable and \<^verbatim>\<open>add\<close> raises on it.
\<close>

definition header_fetch_id :: "json \<Rightarrow> exn + json option" where
  "header_fetch_id doc =
     bnd (py_get doc ''_header'' (JObj [])) (\<lambda>h.
     bnd (py_get h ''fetch_id'' JNull) (\<lambda>fid.
       if truthy fid then
         (if is_list fid \<or> is_dict fid then Inl TypeError else Inr (Some fid))
       else Inr None))"

text \<open>The first loop of \<^verbatim>\<open>main\<close>: every exception is passed over.\<close>

fun collect_kept_ids :: "json option list \<Rightarrow> json set \<Rightarrow> json set" where
  "collect_kept_ids [] kept_ids = kept_ids"
| "collect_kept_ids (f # fs) kept_ids =
     collect_kept_ids fs
       (case f of
          None \<Rightarrow> kept_ids
        | Some doc \<Rightarrow>
            (case header_fetch_id doc of
               Inl e \<Rightarrow> kept_ids
             | Inr None \<Rightarrow> kept_ids
             | Inr (Some fid) \<Rightarrow> insert fid kept_ids))"

text \<open>
  \<^verbatim>\<open>Path.stem\<close>: the name without its last suffix; a name has a suffix when its
  last dot is neither its first nor its last character.
\<close>

definition path_stem :: "string \<Rightarrow> string" where
  "path_stem name =
     (let suf = takeWhile (\<lambda>c. c \<noteq> CHR ''.'') (rev name)
      in if CHR ''.'' \<in> set name \<and> suf \<noteq> [] \<and> length suf + 1 < length name
         then take (length name - length suf - 1) name
         else name)"

text \<open>
  \<^verbatim>\<open>s.replace(old, new)\<close> for a non-empty \<^verbatim>\<open>old\<close>: the occurrences are replaced
  from the left, without overlap.
\<close>

function str_replace :: "string \<Rightarrow> string \<Rightarrow> string \<Rightarrow> string" where
  "str_replace old new [] = []"
| "str_replace old new (c # cs) =
     (if old \<noteq> [] \<and> prefix old (c # cs)
      then new @ str_replace old new (drop (length old) (c # cs))
      else c # str_replace old new cs)"
  by pat_completeness auto
termination
  by (relation "measure (\<lambda>(old, new, s). length s)") auto

text \<open>The fetch identifier \<^verbatim>\<open>main\<close> reads off a manifest's file name.\<close>

definition manifest_fid :: "string \<Rightarrow> string" where
  "manifest_fid name = str_replace ''_manifest'' [] (path_stem name)"

text \<open>
  The name under which \<^verbatim>\<open>save_manifest\<close> (storage/metadata.py) writes the manifest
  of a fetch: \<^verbatim>\<open>f"{manifest['fetch_id']}_manifest.json"\<close>.
\<close>

definition manifest_name :: "string \<Rightarrow> string" where
  "manifest_name fetch_id = fetch_id @ ''_manifest.json''"

text \<open>\<^verbatim>\<open>META.glob("*_manifest.json")\<close> over the names in the metadata directory.\<close>

definition glob_manifests :: "string list \<Rightarrow> string list" where
  "glob_manifests names = filter (suffix ''_manifest.json'') names"

text \<open>
  \<^verbatim>\<open>main\<close> of cleanup_metadata.py, from the raw files (what \<^verbatim>\<open>json.load\<close> makes
  of each) and the names in the metadata directory: the manifests deleted and the
  identifiers retained.
\<close>

definition cleanup_metadata_main :: "json option list \<Rightarrow> string list \<Rightarrow> string list \<times> json set" where
  "cleanup_metadata_main raws names =
     (let kept_ids = collect_kept_ids raws {}
      in (filter (\<lambda>m. JStr (manifest_fid m) \<notin> kept_ids) (glob_manifests names), kept_ids))"

section \<open>The index builder (orphanet_index.py)\<close>
















section \<open>Auxiliary notions for the statements\<close>








section \<open>Properties of the query engine\<close>

lemma add_entries_eq: "add_entries es r = r \<union> entry_triple ` set es"
  by (induction es r rule: add_entries.induct) auto

lemma spec_substring_scan_Nil: "spec_substring_scan [] nrm = {}"
  by (simp add: spec_substring_scan_def)

lemma spec_substring_scan_Cons:
  "spec_substring_scan ((key, entries) # rest) nrm =
     (if sublist nrm key \<or> sublist key nrm then entry_triple ` set entries else {}) \<union>
     spec_substring_scan rest nrm"
  unfolding spec_substring_scan_def by auto

text \<open>The fallback loop computes the scan of the specification.\<close>

lemma fallback_scan_eq: "fallback_scan idx nrm r = r \<union> spec_substring_scan idx nrm"
proof (induction idx nrm r rule: fallback_scan.induct)
  case (1 nrm result)
  show ?case by (simp add: spec_substring_scan_Nil)
next
  case (2 key entries rest nrm result)
  then show ?case by (auto simp: add_entries_eq spec_substring_scan_Cons)
qed

lemma strip_all_space: "\<forall>c \<in> set s. is_space c \<Longrightarrow> strip s = []"
proof -
  assume "\<forall>c \<in> set s. is_space c"
  then have h: "dropWhile is_space s = []" by simp
  show ?thesis by (simp only: strip_def h rev.simps dropWhile.simps)
qed

lemma normalize_blank: "\<forall>c \<in> set s. is_space c \<Longrightarrow> normalize_symptom s = []"
  by (simp add: normalize_symptom_def strip_all_space lower_def)

lemma diseases_blank: "\<forall>c \<in> set s. is_space c \<Longrightarrow> diseases_for_symptom idx s = {}"
  by (simp add: diseases_for_symptom_def normalize_blank)

lemma collect_sets_append:
  "collect_sets idx (xs @ ys) = collect_sets idx xs @ collect_sets idx ys"
  by (induction xs) (auto simp: Let_def)

text \<open>Compared as triples, the records of a query are the set \<^verbatim>\<open>common\<close>.\<close>

lemma query_triples: "result_triple ` query idx ss m = query_common idx ss m"
  by (force simp: query_def make_result_def result_triple_def image_iff split: prod.splits)

lemma diseases_for_symptom_eq:
  assumes "normalize_symptom term = nrm" and "nrm \<noteq> []"
  shows "diseases_for_symptom idx term =
     (let exact = entry_triple ` set (case map_of idx nrm of None \<Rightarrow> [] | Some es \<Rightarrow> es)
      in if exact = {} then spec_substring_scan idx nrm else exact)"
proof -
  define direct where "direct = (case map_of idx nrm of None \<Rightarrow> [] | Some es \<Rightarrow> es)"
  have "diseases_for_symptom idx term =
      (if entry_triple ` set direct = {} then fallback_scan idx nrm (entry_triple ` set direct)
       else entry_triple ` set direct)"
    using assms unfolding diseases_for_symptom_def direct_def
    by (simp only: Let_def add_entries_eq Un_empty_left if_False)
  also have "\<dots> = (if entry_triple ` set direct = {} then spec_substring_scan idx nrm
       else entry_triple ` set direct)"
    by (cases "entry_triple ` set direct = {}")
       (simp_all only: fallback_scan_eq Un_empty_left if_True if_False)
  finally show ?thesis unfolding direct_def Let_def .
qed

text \<open>
  Claim C1, as the code has it. \<^verbatim>\<open>query\<close> drops every term whose disease set is
  empty before it intersects. Compared as (code, name, frequency) triples,
  \<^verbatim>\<open>query([A, B], match_all=True)\<close> is therefore the intersection of
  \<^verbatim>\<open>query([A])\<close> and \<^verbatim>\<open>query([B])\<close> when both are non-empty, and the result of
  the other term alone when one of them is empty.
\<close>

theorem query_match_all_pair:
  "result_triple ` query idx [A, B] True =
     (let a = result_triple ` query idx [A] True; b = result_triple ` query idx [B] True
      in if a = {} then b else if b = {} then a else a \<inter> b)"
  by (auto simp: query_triples query_common_def Let_def set_intersection_def)

text \<open>The law at work on an index with two buckets.\<close>

theorem query_match_all_pair_witness:
  "result_triple ` query [(''fever'', [(''1'', ''D1'', ''often'', ''h1''), (''2'', ''D2'', ''rare'', ''h1'')]),
                          (''cough'', [(''2'', ''D2'', ''rare'', ''h2'')])] [''Fever'', ''cough''] True =
     {(''2'', ''D2'', ''rare'')}"
proof -
  have a: "result_triple ` query [(''fever'', [(''1'', ''D1'', ''often'', ''h1''), (''2'', ''D2'', ''rare'', ''h1'')]),
                          (''cough'', [(''2'', ''D2'', ''rare'', ''h2'')])] [''Fever''] True = {(''1'', ''D1'', ''often''), (''2'', ''D2'', ''rare'')}"
    unfolding query_triples by code_simp
  have b: "result_triple ` query [(''fever'', [(''1'', ''D1'', ''often'', ''h1''), (''2'', ''D2'', ''rare'', ''h1'')]),
                          (''cough'', [(''2'', ''D2'', ''rare'', ''h2'')])] [''cough''] True = {(''2'', ''D2'', ''rare'')}"
    unfolding query_triples by code_simp
  show ?thesis
    unfolding query_match_all_pair a b by (simp add: Let_def)
qed

text \<open>
  The unconditional intersection law fails: a term without any match is dropped, so the
  pair query returns the matches of the other term, while the intersection is empty.
\<close>

theorem query_intersection_counterexample:
  "\<not> (\<forall>idx A B. result_triple ` query idx [A, B] True =
        result_triple ` query idx [A] True \<inter> result_triple ` query idx [B] True)"
proof
  assume h: "\<forall>idx A B. result_triple ` query idx [A, B] True =
        result_triple ` query idx [A] True \<inter> result_triple ` query idx [B] True"
  have "result_triple ` query [(''fever'', [(''1'', ''D1'', ''often'', ''h1'')])] [''rash'', ''fever''] True \<noteq>
        result_triple ` query [(''fever'', [(''1'', ''D1'', ''often'', ''h1'')])] [''rash''] True \<inter>
        result_triple ` query [(''fever'', [(''1'', ''D1'', ''often'', ''h1'')])] [''fever''] True"
    unfolding query_triples by code_simp
  with h show False by blast
qed

text \<open>
  Claim C8, as the code has it. For a term whose normalized form is not empty:
  when the exact bucket yields no triple (no bucket, or an empty one) the result is the
  substring scan over every indexed key, and when the exact bucket yields triples the
  result is exactly these, so the scan runs only on an exact miss. In particular, in
  an index with the key "acute fever" and no key "fever", the diseases under
  "acute fever" are returned for "fever".
\<close>

theorem substring_fallback:
  "(normalize_symptom term = nrm \<and> nrm \<noteq> [] \<longrightarrow>
      diseases_for_symptom idx term =
        (let exact = entry_triple ` set (case map_of idx nrm of None \<Rightarrow> [] | Some es \<Rightarrow> es)
         in if exact = {} then spec_substring_scan idx nrm else exact)) \<and>
   (map_of idx ''fever'' = None \<and> (''acute fever'', entries) \<in> set idx \<longrightarrow>
      entry_triple ` set entries \<subseteq> diseases_for_symptom idx ''fever'')"
proof (intro conjI impI)
  assume "normalize_symptom term = nrm \<and> nrm \<noteq> []"
  then show "diseases_for_symptom idx term =
        (let exact = entry_triple ` set (case map_of idx nrm of None \<Rightarrow> [] | Some es \<Rightarrow> es)
         in if exact = {} then spec_substring_scan idx nrm else exact)"
    using diseases_for_symptom_eq by blast
next
  assume a: "map_of idx ''fever'' = None \<and> (''acute fever'', entries) \<in> set idx"
  have n: "normalize_symptom ''fever'' = ''fever''" by code_simp
  have s: "sublist ''fever'' ''acute fever''" by code_simp
  have "diseases_for_symptom idx ''fever'' = spec_substring_scan idx ''fever''"
    using diseases_for_symptom_eq[OF n, of idx] a by simp
  moreover have "entry_triple ` set entries \<subseteq> spec_substring_scan idx ''fever''"
    using a s unfolding spec_substring_scan_def by blast
  ultimately show "entry_triple ` set entries \<subseteq> diseases_for_symptom idx ''fever''" by simp
qed

theorem substring_fallback_witness:
  "diseases_for_symptom [(''acute fever'', [(''1'', ''D1'', ''often'', ''h1'')]), (''cough'', [(''2'', ''D2'', ''rare'', ''h2'')])] ''FEVER '' = {(''1'', ''D1'', ''often'')}
   \<and> entry_triple ` set [(''1'', ''D1'', ''often'', ''h1'')] \<subseteq> diseases_for_symptom [(''acute fever'', [(''1'', ''D1'', ''often'', ''h1'')]), (''cough'', [(''2'', ''D2'', ''rare'', ''h2'')])] ''fever''"
proof -
  have n: "normalize_symptom ''FEVER '' = ''fever''" by code_simp
  have s: "spec_substring_scan [(''acute fever'', [(''1'', ''D1'', ''often'', ''h1'')]), (''cough'', [(''2'', ''D2'', ''rare'', ''h2'')])] ''fever'' = {(''1'', ''D1'', ''often'')}"
    by (simp add: spec_substring_scan_Cons spec_substring_scan_Nil sublist_code)
  show ?thesis
    using substring_fallback[of "''FEVER ''" "''fever''" "[(''acute fever'', [(''1'', ''D1'', ''often'', ''h1'')]), (''cough'', [(''2'', ''D2'', ''rare'', ''h2'')])]" "[(''1'', ''D1'', ''often'', ''h1'')]"] n s
    by (simp add: Let_def)
qed

text \<open>
  Without the restriction to non-empty normalized terms the statement fails: the empty
  term has no bucket and is a substring of every key, and it returns nothing.
\<close>

theorem substring_fallback_counterexample:
  "\<not> (\<forall>idx term. map_of idx (normalize_symptom term) = None \<longrightarrow>
        diseases_for_symptom idx term = spec_substring_scan idx (normalize_symptom term))"
proof
  assume h: "\<forall>idx term. map_of idx (normalize_symptom term) = None \<longrightarrow>
        diseases_for_symptom idx term = spec_substring_scan idx (normalize_symptom term)"
  have n: "normalize_symptom [] = []" by (simp add: normalize_symptom_def)
  have d: "diseases_for_symptom [(''acute fever'', [(''1'', ''D1'', ''often'', ''h1'')])] [] = {}"
    by (simp add: diseases_for_symptom_def n)
  have s: "spec_substring_scan [(''acute fever'', [(''1'', ''D1'', ''often'', ''h1'')])] [] = {(''1'', ''D1'', ''often'')}"
    by (simp add: spec_substring_scan_Cons spec_substring_scan_Nil)
  from h have "map_of [(''acute fever'', [(''1'', ''D1'', ''often'', ''h1'')])] (normalize_symptom []) = None \<longrightarrow>
     diseases_for_symptom [(''acute fever'', [(''1'', ''D1'', ''often'', ''h1'')])] [] = spec_substring_scan [(''acute fever'', [(''1'', ''D1'', ''often'', ''h1'')])] (normalize_symptom [])"
    by blast
  then show False by (simp add: n d s)
qed

text \<open>
  Claim C10. A term that is empty or made of whitespace only normalizes to the empty
  string; \<^verbatim>\<open>_diseases_for_symptom\<close> returns the empty set for it, whatever the
  index holds; \<^verbatim>\<open>query\<close> drops it like any term without results, so the triples of
  a query are those of the query without the term.
\<close>

theorem blank_term_discarded:
  assumes "\<forall>c \<in> set term. is_space c"
  shows "normalize_symptom term = [] \<and> diseases_for_symptom idx term = {} \<and>
    collect_sets idx (pre @ term # post) = collect_sets idx (pre @ post) \<and>
    result_triple ` query idx (pre @ term # post) m = result_triple ` query idx (pre @ post) m"
proof -
  have d: "diseases_for_symptom idx term = {}" using assms by (rule diseases_blank)
  have c: "collect_sets idx (pre @ term # post) = collect_sets idx (pre @ post)"
    by (simp add: collect_sets_append d)
  have q: "query_common idx (pre @ term # post) m = query_common idx (pre @ post) m"
  proof (cases "pre @ post = []")
    case True
    then show ?thesis by (simp add: query_common_def d)
  next
    case False
    then show ?thesis using c by (simp add: query_common_def)
  qed
  show ?thesis using assms d c q by (simp add: normalize_blank query_triples)
qed

text \<open>
  On an index with the key "fever", the fallback loop run on the empty string would
  return the bucket of "fever"; the blank term returns nothing.
\<close>

theorem blank_term_discarded_witness:
  "is_space CHR '' '' \<and> is_space (CHR 0x09) \<and>
   fallback_scan [(''fever'', [(''1'', ''D1'', ''often'', ''h1'')])] [] {} = {(''1'', ''D1'', ''often'')} \<and>
   normalize_symptom [CHR '' '', CHR 0x09] = [] \<and>
   diseases_for_symptom [(''fever'', [(''1'', ''D1'', ''often'', ''h1'')])] [CHR '' '', CHR 0x09] = {} \<and>
   result_triple ` query [(''fever'', [(''1'', ''D1'', ''often'', ''h1'')])] [''fever'', [CHR '' '', CHR 0x09]] True =
     {(''1'', ''D1'', ''often'')}"
proof -
  have sp: "is_space CHR '' ''" "is_space (CHR 0x09)" by code_simp+
  have f: "fallback_scan [(''fever'', [(''1'', ''D1'', ''often'', ''h1'')])] [] {} = {(''1'', ''D1'', ''often'')}"
    by simp
  have q: "result_triple ` query [(''fever'', [(''1'', ''D1'', ''often'', ''h1'')])] ([''fever''] @ []) True =
     {(''1'', ''D1'', ''often'')}"
    unfolding query_triples by code_simp
  show ?thesis
    using blank_term_discarded[of "[CHR '' '', CHR 0x09]" "[(''fever'', [(''1'', ''D1'', ''often'', ''h1'')])]" "[''fever'']" "[]" True] sp f q
    by simp
qed

section \<open>Properties of the fetch orchestrator\<close>

lemma run_jobs_all_completed:
  "fst ` set jobs \<subseteq> set (completed st) \<Longrightarrow> run_jobs fetch jobs st = (None, st)"
  by (induction jobs) auto

lemma CONFIG_keys:
  "map fst CONFIG = [''orphanet'', ''pubmed'', ''pmc'', ''openfda_label'', ''openfda_event'',
     ''rxnorm'', ''who'', ''ncbi_bookshelf'', ''openstax'']"
  by (simp add: CONFIG_def)

lemma CONFIG_distinct: "distinct (map fst CONFIG)"
  unfolding CONFIG_keys by simp

lemma run_jobs_append:
  "run_jobs fetch (pre @ post) st =
     (case run_jobs fetch pre st of (None, st1) \<Rightarrow> run_jobs fetch post st1 | (Some c, st1) \<Rightarrow> (Some c, st1))"
  by (induction pre arbitrary: st) (auto split: outcome.splits)

lemma run_jobs_completed_mono:
  "run_jobs fetch jobs st = (r, st') \<Longrightarrow> set (completed st) \<subseteq> set (completed st')"
proof (induction jobs arbitrary: st)
  case Nil then show ?case by simp
next
  case (Cons j jobs)
  obtain key name kw where j: "j = (key, name, kw)" by (cases j) auto
  show ?case
  proof (cases "key \<in> set (completed st)")
    case True
    with Cons j show ?thesis by simp
  next
    case False
    show ?thesis
    proof (cases "fetch key kw")
      case Returned
      with Cons.prems j False have
        "run_jobs fetch jobs (st \<lparr> completed := completed st @ [key],
                     cpfile := save_checkpoint (completed st @ [key]) None,
                     invoked := invoked st @ [(key, kw)] \<rparr>) = (r, st')" by simp
      from Cons.IH[OF this] show ?thesis by auto
    next
      case (Raised tname msg)
      with Cons.prems j False show ?thesis by auto
    qed
  qed
qed

lemma run_jobs_invoked:
  "run_jobs fetch jobs st = (r, st') \<Longrightarrow>
     fst ` set (invoked st') \<subseteq> fst ` set (invoked st) \<union> fst ` set jobs"
proof (induction jobs arbitrary: st)
  case Nil then show ?case by simp
next
  case (Cons j jobs)
  obtain key name kw where j: "j = (key, name, kw)" by (cases j) auto
  show ?case
  proof (cases "key \<in> set (completed st)")
    case True
    with Cons.prems j have "run_jobs fetch jobs st = (r, st')" by simp
    from Cons.IH[OF this] show ?thesis by auto
  next
    case False
    show ?thesis
    proof (cases "fetch key kw")
      case Returned
      with Cons.prems j False have
        "run_jobs fetch jobs (st \<lparr> completed := completed st @ [key],
                     cpfile := save_checkpoint (completed st @ [key]) None,
                     invoked := invoked st @ [(key, kw)] \<rparr>) = (r, st')" by simp
      from Cons.IH[OF this] show ?thesis using j by auto
    next
      case (Raised tname msg)
      with Cons.prems j False show ?thesis by auto
    qed
  qed
qed

lemma run_jobs_skips_completed:
  "run_jobs fetch jobs st = (r, st') \<Longrightarrow>
     fst ` set (invoked st') \<subseteq> fst ` set (invoked st) \<union> (fst ` set jobs - set (completed st))"
proof (induction jobs arbitrary: st)
  case Nil then show ?case by simp
next
  case (Cons j jobs)
  obtain key name kw where j: "j = (key, name, kw)" by (cases j) auto
  show ?case
  proof (cases "key \<in> set (completed st)")
    case True
    with Cons.prems j have "run_jobs fetch jobs st = (r, st')" by simp
    from Cons.IH[OF this] show ?thesis by auto
  next
    case False
    show ?thesis
    proof (cases "fetch key kw")
      case Returned
      let ?st1 = "st \<lparr> completed := completed st @ [key],
                     cpfile := save_checkpoint (completed st @ [key]) None,
                     invoked := invoked st @ [(key, kw)] \<rparr>"
      from Returned Cons.prems j False have "run_jobs fetch jobs ?st1 = (r, st')" by simp
      from Cons.IH[OF this] have
        "fst ` set (invoked st') \<subseteq> fst ` set (invoked ?st1) \<union> (fst ` set jobs - set (completed ?st1))" .
      then show ?thesis using j False by auto
    next
      case (Raised tname msg)
      with Cons.prems j False show ?thesis by auto
    qed
  qed
qed

text \<open>
  Claim C2. In a run without \<^verbatim>\<open>--reset\<close>, no job whose key is in the completed
  list of the stored checkpoint is called. When every key of \<^verbatim>\<open>CONFIG\<close> is in that
  list and \<^verbatim>\<open>last_error\<close> is null, the run calls no collaborator at all, whatever
  the collaborators would do: it exits with code 0 and the checkpoint file holds what it
  held.
\<close>

theorem idempotent_resume:
  "fst ` set (invoked (snd (fetch_all_checkpointed_main False (Stored cp) fetch))) \<inter>
     set (cp_completed cp) = {} \<and>
   (fst ` set CONFIG \<subseteq> set (cp_completed cp) \<and> cp_last_error cp = None \<longrightarrow>
      fetch_all_checkpointed_main False (Stored cp) fetch =
        (0, \<lparr> completed = cp_completed cp, cpfile = Stored cp, invoked = [] \<rparr>))"
proof (intro conjI impI)
  let ?st = "start_state False (Stored cp)"
  have st: "?st = \<lparr> completed = cp_completed cp, cpfile = Stored cp, invoked = [] \<rparr>"
    by (simp add: start_state_def load_checkpoint_def)
  obtain r st' where run: "run_jobs fetch CONFIG ?st = (r, st')" by (cases "run_jobs fetch CONFIG ?st") auto
  from run_jobs_skips_completed[OF run]
  have "fst ` set (invoked st') \<inter> set (cp_completed cp) = {}" by (auto simp: st)
  moreover have "invoked (snd (fetch_all_checkpointed_main False (Stored cp) fetch)) = invoked st'"
    using run by (cases r) (simp_all add: fetch_all_checkpointed_main_def)
  ultimately show "fst ` set (invoked (snd (fetch_all_checkpointed_main False (Stored cp) fetch))) \<inter>
     set (cp_completed cp) = {}" by simp
next
  assume a: "fst ` set CONFIG \<subseteq> set (cp_completed cp) \<and> cp_last_error cp = None"
  let ?st = "start_state False (Stored cp)"
  have st: "?st = \<lparr> completed = cp_completed cp, cpfile = Stored cp, invoked = [] \<rparr>"
    by (simp add: start_state_def load_checkpoint_def)
  have "run_jobs fetch CONFIG ?st = (None, ?st)"
    using a by (intro run_jobs_all_completed) (simp add: st)
  moreover have "save_checkpoint (cp_completed cp) None = Stored cp"
    using a by (simp add: save_checkpoint_def)
  ultimately show "fetch_all_checkpointed_main False (Stored cp) fetch =
        (0, \<lparr> completed = cp_completed cp, cpfile = Stored cp, invoked = [] \<rparr>)"
    by (simp add: fetch_all_checkpointed_main_def st)
qed

theorem idempotent_resume_witness:
  "fetch_all_checkpointed_main False
     (Stored \<lparr> cp_completed = [''orphanet'', ''pubmed'', ''pmc'', ''openfda_label'', ''openfda_event'',
                   ''rxnorm'', ''who'', ''ncbi_bookshelf'', ''openstax''], cp_last_error = None \<rparr>)
     (\<lambda>key kw. Raised ''TimeoutError'' ''timed out'') =
   (0, \<lparr> completed = [''orphanet'', ''pubmed'', ''pmc'', ''openfda_label'', ''openfda_event'',
                   ''rxnorm'', ''who'', ''ncbi_bookshelf'', ''openstax''],
        cpfile = Stored \<lparr> cp_completed = [''orphanet'', ''pubmed'', ''pmc'', ''openfda_label'', ''openfda_event'',
                   ''rxnorm'', ''who'', ''ncbi_bookshelf'', ''openstax''], cp_last_error = None \<rparr>,
        invoked = [] \<rparr>)"
  using idempotent_resume[of "\<lparr> cp_completed = [''orphanet'', ''pubmed'', ''pmc'', ''openfda_label'', ''openfda_event'',
                   ''rxnorm'', ''who'', ''ncbi_bookshelf'', ''openstax''], cp_last_error = None \<rparr>" "(\<lambda>key kw. Raised ''TimeoutError'' ''timed out'')",
      THEN conjunct2]
  by (simp add: CONFIG_def)

text \<open>
  Claim C3. Let the jobs before some job of \<^verbatim>\<open>CONFIG\<close> run through (each is
  skipped or its collaborator returns), and let the collaborator of that job, whose key is
  not completed, raise an exception. Then the run exits with code 1; the checkpoint file
  holds the completed list as it was just before the failing job, with
  \<^verbatim>\<open>last_error\<close> set to the exception's type name, a colon and its message; every
  key that was completed when the loop started (the keys of the loaded checkpoint, or
  none under \<^verbatim>\<open>--reset\<close>) is still in that list; and no job after the failing one
  is called.
\<close>

theorem failure_halts_run:
  assumes cfg: "CONFIG = pre @ (key, name, kw) # post"
      and pre: "run_jobs fetch pre (start_state reset f) = (None, st1)"
      and new: "key \<notin> set (completed st1)"
      and fails: "fetch key kw = Raised tname msg"
  shows "fetch_all_checkpointed_main reset f fetch =
           (1, st1 \<lparr> cpfile := Stored \<lparr> cp_completed = completed st1,
                                      cp_last_error = Some (tname @ '': '' @ msg) \<rparr>,
                    invoked := invoked st1 @ [(key, kw)] \<rparr>)
         \<and> set (completed (start_state reset f)) \<subseteq> set (completed st1)
         \<and> (if reset then completed (start_state reset f) = []
              else completed (start_state reset f) = cp_completed (load_checkpoint f))
         \<and> fst ` set post \<inter> fst ` set (invoked st1 @ [(key, kw)]) = {}"
proof -
  have step: "run_jobs fetch ((key, name, kw) # post) st1 =
      (Some 1, st1 \<lparr> cpfile := Stored \<lparr> cp_completed = completed st1,
                                      cp_last_error = Some (tname @ '': '' @ msg) \<rparr>,
                    invoked := invoked st1 @ [(key, kw)] \<rparr>)"
    using new fails by (simp add: save_checkpoint_def)
  have run: "run_jobs fetch CONFIG (start_state reset f) =
      (Some 1, st1 \<lparr> cpfile := Stored \<lparr> cp_completed = completed st1,
                                      cp_last_error = Some (tname @ '': '' @ msg) \<rparr>,
                    invoked := invoked st1 @ [(key, kw)] \<rparr>)"
    unfolding cfg run_jobs_append pre using step by simp
  have m: "set (completed (start_state reset f)) \<subseteq> set (completed st1)"
    using run_jobs_completed_mono[OF pre] .
  have "invoked (start_state reset f) = []" by (simp add: start_state_def)
  with run_jobs_invoked[OF pre] have i: "fst ` set (invoked st1) \<subseteq> fst ` set pre" by simp
  have "distinct (map fst (pre @ (key, name, kw) # post))"
    using CONFIG_distinct unfolding cfg .
  then have "fst ` set post \<inter> (fst ` set pre \<union> {key}) = {}" by auto
  with i have d: "fst ` set post \<inter> fst ` set (invoked st1 @ [(key, kw)]) = {}" by auto
  have c: "if reset then completed (start_state reset f) = []
              else completed (start_state reset f) = cp_completed (load_checkpoint f)"
    by (simp add: start_state_def)
  show ?thesis using run m d c by (simp add: fetch_all_checkpointed_main_def)
qed

theorem failure_halts_run_witness:
  "fetch_all_checkpointed_main False
     (Stored \<lparr> cp_completed = [''orphanet''], cp_last_error = Some ''ConnectionError: reset'' \<rparr>)
     (\<lambda>key kw. if key = ''pmc'' then Raised ''HTTPError'' ''429 Too Many Requests'' else Returned) =
   (1, \<lparr> completed = [''orphanet'', ''pubmed''],
        cpfile = Stored \<lparr> cp_completed = [''orphanet'', ''pubmed''],
                          cp_last_error = Some ''HTTPError: 429 Too Many Requests'' \<rparr>,
        invoked = [(''pubmed'', [(''term'', PStr ''rare disease''), (''max_records'', PInt 5000)]),
                   (''pmc'', [(''term'', PStr ''rare disease''), (''max_records'', PInt 2000)])] \<rparr>)"
proof -
  let ?fetch = "\<lambda>key (kw :: kwargs). if key = ''pmc'' then Raised ''HTTPError'' ''429 Too Many Requests'' else Returned"
  let ?f = "Stored \<lparr> cp_completed = [''orphanet''], cp_last_error = Some ''ConnectionError: reset'' \<rparr>"
  let ?pre = "[(''orphanet'', ''Orphanet'', [(''dataset'', PStr ''phenotypes'')]),
     (''pubmed'', ''PubMed'', [(''term'', PStr ''rare disease''), (''max_records'', PInt 5000)])]"
  let ?post = "[(''openfda_label'', ''OpenFDA (labels)'',
        [(''endpoint'', PStr ''label''), (''max_records'', PInt 25000)]),
     (''openfda_event'', ''OpenFDA (events)'',
        [(''endpoint'', PStr ''event''), (''max_records'', PInt 25000)]),
     (''rxnorm'', ''RxNorm'', [(''query'', PStr ''aspirin''), (''max_records'', PInt 100)]),
     (''who'', ''WHO'', [(''endpoint'', PStr ''documents''), (''limit'', PInt 200)]),
     (''ncbi_bookshelf'', ''NCBI Bookshelf'',
        [(''term'', PStr ''pharmacology''), (''max_records'', PInt 100)]),
     (''openstax'', ''OpenStax (pharmacology)'', [(''book'', PStr ''pharmacology'')])]"
  let ?st1 = "\<lparr> completed = [''orphanet'', ''pubmed''],
        cpfile = Stored \<lparr> cp_completed = [''orphanet'', ''pubmed''], cp_last_error = None \<rparr>,
        invoked = [(''pubmed'', [(''term'', PStr ''rare disease''), (''max_records'', PInt 5000)])] \<rparr>"
  have cfg: "CONFIG = ?pre @ (''pmc'', ''PMC'', [(''term'', PStr ''rare disease''), (''max_records'', PInt 2000)]) # ?post"
    by (simp add: CONFIG_def)
  have pre: "run_jobs ?fetch ?pre (start_state False ?f) = (None, ?st1)"
    by (simp add: start_state_def load_checkpoint_def save_checkpoint_def)
  have new: "''pmc'' \<notin> set (completed ?st1)" by simp
  have fails: "?fetch ''pmc'' [(''term'', PStr ''rare disease''), (''max_records'', PInt 2000)] = Raised ''HTTPError'' ''429 Too Many Requests''"
    by simp
  show ?thesis
    using failure_halts_run[OF cfg pre new fails] by simp
qed

section \<open>Properties of the deduplicator\<close>












lemma sort_key_hd_min:
  assumes "xs \<noteq> []"
  shows "hd (sort_key k xs) \<in> set xs \<and> (\<forall>p \<in> set xs. k (hd (sort_key k xs)) \<le> k p)"
proof -
  let ?o = "sort_key k xs"
  have ne: "?o \<noteq> []" using assms by (metis length_0_conv length_sort)
  then obtain y ys where o: "?o = y # ys" by (cases ?o) auto
  have s: "sorted (map k ?o)" by simp
  have st: "set ?o = set xs" by simp
  from s o have "\<forall>p \<in> set ys. k y \<le> k p" by simp
  then have "\<forall>p \<in> set ?o. k y \<le> k p" using o by auto
  then show ?thesis using o st by (metis list.sel(1) list.set_intros(1))
qed

lemma sort_key_hd_tl_mset:
  assumes "xs \<noteq> []"
  shows "add_mset (hd (sort_key k xs)) (mset (tl (sort_key k xs))) = mset xs"
proof -
  have ne: "sort_key k xs \<noteq> []" using assms by (metis length_0_conv length_sort)
  then have "add_mset (hd (sort_key k xs)) (mset (tl (sort_key k xs))) = mset (sort_key k xs)"
    by (cases "sort_key k xs") auto
  then show ?thesis by simp
qed

lemma rank_key_le:
  "rank_key source subdir a \<le> rank_key source subdir b \<longleftrightarrow>
     (let ca = record_count (content a) (takeWhile (\<lambda>c. c \<noteq> CHR ''/'') source) subdir;
          cb = record_count (content b) (takeWhile (\<lambda>c. c \<noteq> CHR ''/'') source) subdir
      in cb < ca \<or> (cb = ca \<and> mtime b \<le> mtime a))"
  by (auto simp: rank_key_def Let_def less_eq_prod_def)

lemma dedup_dir_many:
  assumes "1 < length files"
  shows "\<exists>keep removed. dedup_dir source subdir files = (Some keep, removed) \<and>
           keep \<in> set files \<and> add_mset keep (mset removed) = mset files \<and>
           (\<forall>p \<in> set files. rank_key source subdir keep \<le> rank_key source subdir p)"
proof -
  have ne: "files \<noteq> []" using assms by auto
  let ?o = "sort_key (rank_key source subdir) files"
  have "dedup_dir source subdir files = (Some (hd ?o), tl ?o)"
    using assms by (simp add: dedup_dir_def Let_def)
  moreover note sort_key_hd_min[OF ne, of "rank_key source subdir"]
    sort_key_hd_tl_mset[OF ne, of "rank_key source subdir"]
  ultimately show ?thesis by blast
qed

lemma SOURCES_distinct: "distinct SOURCES"
  by (simp add: SOURCES_def)

lemma dedup_step_other: "sd' \<noteq> sd \<Longrightarrow> tree (dedup_step sd st) sd' = tree st sd'"
  by (auto simp: dedup_step_def split: option.splits prod.splits)

lemma dedup_step_tree:
  "tree (dedup_step sd st) sd =
     (case tree st sd of
        None \<Rightarrow> None
      | Some files \<Rightarrow>
          Some (filter (\<lambda>p. path p \<notin> path ` set (snd (dedup_dir (fst sd) (snd sd) files))) files))"
proof (cases "tree st sd")
  case None
  then show ?thesis by (simp add: dedup_step_def)
next
  case (Some files)
  show ?thesis
  proof (cases "length files \<le> 1")
    case True
    with Some show ?thesis by (simp add: dedup_step_def dedup_dir_def)
  next
    case False
    with Some show ?thesis by (simp add: dedup_step_def dedup_dir_def Let_def)
  qed
qed

lemma dedup_step_deleted:
  "deleted (dedup_step sd st) =
     deleted st @ (case tree st sd of None \<Rightarrow> [] | Some files \<Rightarrow> snd (dedup_dir (fst sd) (snd sd) files))"
proof (cases "tree st sd")
  case None
  then show ?thesis by (simp add: dedup_step_def)
next
  case (Some files)
  show ?thesis
  proof (cases "length files \<le> 1")
    case True
    with Some show ?thesis by (simp add: dedup_step_def dedup_dir_def)
  next
    case False
    with Some show ?thesis by (simp add: dedup_step_def dedup_dir_def Let_def)
  qed
qed

lemma fold_dedup_tree_other:
  "sd \<notin> set sds \<Longrightarrow> tree (fold dedup_step sds st) sd = tree st sd"
  by (induction sds arbitrary: st) (auto simp: dedup_step_other)

lemma fold_dedup_tree:
  "distinct sds \<Longrightarrow> sd \<in> set sds \<Longrightarrow>
   tree (fold dedup_step sds st) sd =
     (case tree st sd of
        None \<Rightarrow> None
      | Some files \<Rightarrow>
          Some (filter (\<lambda>p. path p \<notin> path ` set (snd (dedup_dir (fst sd) (snd sd) files))) files))"
proof (induction sds arbitrary: st)
  case Nil
  then show ?case by simp
next
  case (Cons x xs)
  show ?case
  proof (cases "x = sd")
    case True
    with Cons.prems have "sd \<notin> set xs" by simp
    then have "tree (fold dedup_step xs (dedup_step sd st)) sd = tree (dedup_step sd st) sd"
      by (rule fold_dedup_tree_other)
    with True show ?thesis by (simp add: dedup_step_tree)
  next
    case False
    with Cons.prems have "distinct xs" "sd \<in> set xs" by auto
    from Cons.IH[OF this, of "dedup_step x st"] False show ?thesis
      by (simp add: dedup_step_other)
  qed
qed

lemma fold_dedup_deleted_mono: "set (deleted s) \<subseteq> set (deleted (fold dedup_step ys s))"
proof (induction ys arbitrary: s)
  case Nil
  show ?case by simp
next
  case (Cons y ys)
  have "set (deleted s) \<subseteq> set (deleted (dedup_step y s))" by (simp add: dedup_step_deleted)
  also have "\<dots> \<subseteq> set (deleted (fold dedup_step ys (dedup_step y s)))" by (rule Cons.IH)
  finally show ?case by simp
qed

lemma fold_dedup_deleted:
  "distinct sds \<Longrightarrow> sd \<in> set sds \<Longrightarrow> tree st sd = Some files \<Longrightarrow>
   set (snd (dedup_dir (fst sd) (snd sd) files)) \<subseteq> set (deleted (fold dedup_step sds st))"
proof (induction sds arbitrary: st)
  case Nil
  then show ?case by simp
next
  case (Cons x xs)
  note mono = fold_dedup_deleted_mono
  show ?case
  proof (cases "x = sd")
    case True
    have "set (snd (dedup_dir (fst sd) (snd sd) files)) \<subseteq> set (deleted (dedup_step sd st))"
      using Cons.prems(3) by (simp add: dedup_step_deleted)
    with mono[of "dedup_step sd st" xs] True show ?thesis by auto
  next
    case False
    with Cons.prems have "distinct xs" "sd \<in> set xs" by auto
    moreover have "tree (dedup_step x st) sd = Some files"
      using False Cons.prems(3) by (simp add: dedup_step_other)
    ultimately show ?thesis using Cons.IH[of "dedup_step x st"] by simp
  qed
qed

lemma filter_only:
  "distinct xs \<Longrightarrow> x \<in> set xs \<Longrightarrow> (\<And>y. y \<in> set xs \<Longrightarrow> P y \<longleftrightarrow> y = x) \<Longrightarrow> filter P xs = [x]"
proof (induction xs)
  case Nil
  then show ?case by simp
next
  case (Cons a xs)
  show ?case
  proof (cases "a = x")
    case True
    with Cons.prems have "\<forall>y \<in> set xs. \<not> P y" by auto
    then have "filter P xs = []" by (simp add: filter_empty_conv)
    with True Cons.prems(3)[of a] show ?thesis by simp
  next
    case False
    with Cons.prems have "distinct xs" "x \<in> set xs" by auto
    moreover have "\<And>y. y \<in> set xs \<Longrightarrow> P y \<longleftrightarrow> y = x" using Cons.prems(3) by simp
    ultimately have "filter P xs = [x]" by (rule Cons.IH)
    with False Cons.prems(3)[of a] show ?thesis by simp
  qed
qed

lemma remaining_is_keep:
  assumes "distinct (map path files)" and "keep \<in> set files"
      and "add_mset keep (mset removed) = mset files"
  shows "filter (\<lambda>p. path p \<notin> path ` set removed) files = [keep]"
proof -
  have df: "distinct files" and inj: "inj_on path (set files)"
    using assms(1) by (simp_all add: distinct_map)
  have "count (mset files) keep = 1"
    using df assms(2) by (simp add: distinct_count_atmost_1)
  then have "count (add_mset keep (mset removed)) keep = 1" using assms(3) by simp
  then have "count (mset removed) keep = 0" by simp
  then have nk: "keep \<notin> set removed" by (simp add: count_eq_zero_iff)
  have "set_mset (add_mset keep (mset removed)) = set_mset (mset files)" using assms(3) by simp
  then have "insert keep (set removed) = set files" by simp
  with nk have sr: "set removed = set files - {keep}" by auto
  show ?thesis
  proof (rule filter_only[OF df assms(2)])
    fix y assume y: "y \<in> set files"
    show "(path y \<notin> path ` set removed) = (y = keep)"
    proof
      assume "path y \<notin> path ` set removed"
      then have "y \<notin> set removed" by auto
      with sr y show "y = keep" by auto
    next
      assume "y = keep"
      show "path y \<notin> path ` set removed"
      proof
        assume "path y \<in> path ` set removed"
        then obtain z where z: "z \<in> set removed" "path z = path y" by auto
        with sr have "z \<in> set files" "z \<noteq> keep" by auto
        with inj z(2) y \<open>y = keep\<close> show False by (auto simp: inj_on_def)
      qed
    qed
  qed
qed

text \<open>
  Claim C4. A directory with at most one candidate is left alone. In a directory with
  more than one candidate, one file is kept and all the others are removed; no file of
  the directory has a higher record count than the kept file, and none with the same
  count is newer. For candidates with record counts 10, 25 and 25, listed in any order,
  where the second file of count 25 is the newer one, that file is kept and the two
  others are removed. In \<^verbatim>\<open>main\<close>, a directory of \<^verbatim>\<open>SOURCES\<close> with at most one
  candidate holds afterwards what it held, and one with several candidates holds the
  kept file only, all the others being among the files deleted.
\<close>

theorem dedup_keeps_best:
  "(length files \<le> 1 \<longrightarrow> dedup_dir source subdir files = (None, [])) \<and>
   (1 < length files \<longrightarrow>
      (\<exists>keep removed. dedup_dir source subdir files = (Some keep, removed) \<and>
         keep \<in> set files \<and> add_mset keep (mset removed) = mset files \<and>
         (\<forall>p \<in> set files.
            let cp = record_count (content p) (takeWhile (\<lambda>c. c \<noteq> CHR ''/'') source) subdir;
                ck = record_count (content keep) (takeWhile (\<lambda>c. c \<noteq> CHR ''/'') source) subdir
            in cp < ck \<or> (cp = ck \<and> mtime p \<le> mtime keep)))) \<and>
   (mset files = {#a, b, c#} \<and>
    record_count (content a) (takeWhile (\<lambda>c. c \<noteq> CHR ''/'') source) subdir = 10 \<and>
    record_count (content b) (takeWhile (\<lambda>c. c \<noteq> CHR ''/'') source) subdir = 25 \<and>
    record_count (content c) (takeWhile (\<lambda>c. c \<noteq> CHR ''/'') source) subdir = 25 \<and>
    mtime b < mtime c \<longrightarrow>
      (\<exists>removed. dedup_dir source subdir files = (Some c, removed) \<and> mset removed = {#a, b#})) \<and>
   ((source, subdir) \<in> set SOURCES \<and> t (source, subdir) = Some files \<and> length files \<le> 1 \<longrightarrow>
      tree (cleanup_duplicate_raw_main t) (source, subdir) = Some files) \<and>
   ((source, subdir) \<in> set SOURCES \<and> t (source, subdir) = Some files \<and> 1 < length files \<and>
    distinct (map path files) \<longrightarrow>
      (\<exists>keep. fst (dedup_dir source subdir files) = Some keep \<and>
         tree (cleanup_duplicate_raw_main t) (source, subdir) = Some [keep] \<and>
         set files - {keep} \<subseteq> set (deleted (cleanup_duplicate_raw_main t))))"
proof (intro conjI impI)
  assume "length files \<le> 1"
  then show "dedup_dir source subdir files = (None, [])" by (simp add: dedup_dir_def)
next
  assume "1 < length files"
  from dedup_dir_many[OF this, of source subdir]
  show "\<exists>keep removed. dedup_dir source subdir files = (Some keep, removed) \<and>
         keep \<in> set files \<and> add_mset keep (mset removed) = mset files \<and>
         (\<forall>p \<in> set files.
            let cp = record_count (content p) (takeWhile (\<lambda>c. c \<noteq> CHR ''/'') source) subdir;
                ck = record_count (content keep) (takeWhile (\<lambda>c. c \<noteq> CHR ''/'') source) subdir
            in cp < ck \<or> (cp = ck \<and> mtime p \<le> mtime keep))"
    unfolding rank_key_le Let_def by blast
next
  assume h: "mset files = {#a, b, c#} \<and>
    record_count (content a) (takeWhile (\<lambda>c. c \<noteq> CHR ''/'') source) subdir = 10 \<and>
    record_count (content b) (takeWhile (\<lambda>c. c \<noteq> CHR ''/'') source) subdir = 25 \<and>
    record_count (content c) (takeWhile (\<lambda>c. c \<noteq> CHR ''/'') source) subdir = 25 \<and>
    mtime b < mtime c"
  then have "size (mset files) = 3" by simp
  then have len: "1 < length files" by simp
  have sf: "set files = {a, b, c}" using h by (metis set_mset_mset set_mset_add_mset_insert set_mset_empty)
  from dedup_dir_many[OF len, of source subdir] obtain keep removed where
    d: "dedup_dir source subdir files = (Some keep, removed)" and
    k: "keep \<in> set files" and
    m: "add_mset keep (mset removed) = mset files" and
    best: "\<forall>p \<in> set files. rank_key source subdir keep \<le> rank_key source subdir p"
    by blast
  have "rank_key source subdir keep \<le> rank_key source subdir c" using best sf by simp
  then have "keep \<noteq> a" "keep \<noteq> b" using h by (auto simp: rank_key_le Let_def)
  with k sf have kc: "keep = c" by auto
  from m h kc have "add_mset c (mset removed) = add_mset c {#a, b#}"
    by (simp add: add_mset_commute)
  then have "mset removed = {#a, b#}" by simp
  with d kc show "\<exists>removed. dedup_dir source subdir files = (Some c, removed) \<and> mset removed = {#a, b#}"
    by blast
next
  assume a: "(source, subdir) \<in> set SOURCES \<and> t (source, subdir) = Some files \<and> length files \<le> 1"
  then have "dedup_dir source subdir files = (None, [])" by (simp add: dedup_dir_def)
  with a show "tree (cleanup_duplicate_raw_main t) (source, subdir) = Some files"
    unfolding cleanup_duplicate_raw_main_def
    by (simp add: fold_dedup_tree[OF SOURCES_distinct])
next
  assume a: "(source, subdir) \<in> set SOURCES \<and> t (source, subdir) = Some files \<and> 1 < length files \<and>
    distinct (map path files)"
  then have len: "1 < length files" by simp
  from dedup_dir_many[OF len, of source subdir] obtain keep removed where
    d: "dedup_dir source subdir files = (Some keep, removed)" and
    k: "keep \<in> set files" and
    m: "add_mset keep (mset removed) = mset files"
    by blast
  from a have dp: "distinct (map path files)" by simp
  have r: "filter (\<lambda>p. path p \<notin> path ` set removed) files = [keep]"
    using remaining_is_keep[OF dp k m] .
  have t1: "tree (cleanup_duplicate_raw_main t) (source, subdir) = Some [keep]"
    using a d r unfolding cleanup_duplicate_raw_main_def
    by (simp add: fold_dedup_tree[OF SOURCES_distinct])
  have "set removed \<subseteq> set (deleted (cleanup_duplicate_raw_main t))"
    using a d fold_dedup_deleted[OF SOURCES_distinct, of "(source, subdir)" "\<lparr> tree = t, kept = [], deleted = [] \<rparr>" files]
    unfolding cleanup_duplicate_raw_main_def by simp
  moreover have "set files - {keep} \<subseteq> set removed"
  proof -
    have "set_mset (add_mset keep (mset removed)) = set_mset (mset files)" using m by simp
    then show ?thesis by auto
  qed
  ultimately have t2: "set files - {keep} \<subseteq> set (deleted (cleanup_duplicate_raw_main t))" by blast
  from d t1 t2 show "\<exists>keep. fst (dedup_dir source subdir files) = Some keep \<and>
         tree (cleanup_duplicate_raw_main t) (source, subdir) = Some [keep] \<and>
         set files - {keep} \<subseteq> set (deleted (cleanup_duplicate_raw_main t))"
    by auto
qed

theorem dedup_keeps_best_witness:
  "fst (dedup_dir ''pubmed'' []
     [\<lparr> path = ''a.json'', content = Some (JObj [(''data'', JObj [(''articles'', JArr (replicate 10 JNull))])]), mtime = 300 \<rparr>,
      \<lparr> path = ''b.json'', content = Some (JObj [(''data'', JObj [(''articles'', JArr (replicate 25 JNull))])]), mtime = 100 \<rparr>,
      \<lparr> path = ''c.json'', content = Some (JObj [(''data'', JObj [(''articles'', JArr (replicate 25 JNull))])]), mtime = 200 \<rparr>])
   = Some \<lparr> path = ''c.json'', content = Some (JObj [(''data'', JObj [(''articles'', JArr (replicate 25 JNull))])]), mtime = 200 \<rparr>
   \<and> mset (snd (dedup_dir ''pubmed'' []
     [\<lparr> path = ''a.json'', content = Some (JObj [(''data'', JObj [(''articles'', JArr (replicate 10 JNull))])]), mtime = 300 \<rparr>,
      \<lparr> path = ''b.json'', content = Some (JObj [(''data'', JObj [(''articles'', JArr (replicate 25 JNull))])]), mtime = 100 \<rparr>,
      \<lparr> path = ''c.json'', content = Some (JObj [(''data'', JObj [(''articles'', JArr (replicate 25 JNull))])]), mtime = 200 \<rparr>]))
   = {#\<lparr> path = ''a.json'', content = Some (JObj [(''data'', JObj [(''articles'', JArr (replicate 10 JNull))])]), mtime = 300 \<rparr>,
       \<lparr> path = ''b.json'', content = Some (JObj [(''data'', JObj [(''articles'', JArr (replicate 25 JNull))])]), mtime = 100 \<rparr>#}
   \<and> dedup_dir ''pubmed'' [] [\<lparr> path = ''a.json'', content = None, mtime = 300 \<rparr>] = (None, [])
   \<and> tree (cleanup_duplicate_raw_main (\<lambda>sd. if sd = (''pubmed'', []) then Some
     [\<lparr> path = ''a.json'', content = Some (JObj [(''data'', JObj [(''articles'', JArr (replicate 10 JNull))])]), mtime = 300 \<rparr>,
      \<lparr> path = ''b.json'', content = Some (JObj [(''data'', JObj [(''articles'', JArr (replicate 25 JNull))])]), mtime = 100 \<rparr>,
      \<lparr> path = ''c.json'', content = Some (JObj [(''data'', JObj [(''articles'', JArr (replicate 25 JNull))])]), mtime = 200 \<rparr>]
     else None)) (''pubmed'', [])
     = Some [\<lparr> path = ''c.json'', content = Some (JObj [(''data'', JObj [(''articles'', JArr (replicate 25 JNull))])]), mtime = 200 \<rparr>]"
proof -
  let ?a = "\<lparr> path = ''a.json'', content = Some (JObj [(''data'', JObj [(''articles'', JArr (replicate 10 JNull))])]), mtime = 300 \<rparr>"
  let ?b = "\<lparr> path = ''b.json'', content = Some (JObj [(''data'', JObj [(''articles'', JArr (replicate 25 JNull))])]), mtime = 100 \<rparr>"
  let ?c = "\<lparr> path = ''c.json'', content = Some (JObj [(''data'', JObj [(''articles'', JArr (replicate 25 JNull))])]), mtime = 200 \<rparr>"
  have ra: "record_count (content ?a) (takeWhile (\<lambda>c. c \<noteq> CHR ''/'') ''pubmed'') [] = 10"
    by (simp add: record_count_def count_records_def bnd_def dget_def)
  have rb: "record_count (content ?b) (takeWhile (\<lambda>c. c \<noteq> CHR ''/'') ''pubmed'') [] = 25"
    by (simp add: record_count_def count_records_def bnd_def dget_def)
  have rc: "record_count (content ?c) (takeWhile (\<lambda>c. c \<noteq> CHR ''/'') ''pubmed'') [] = 25"
    by (simp add: record_count_def count_records_def bnd_def dget_def)
  have t: "mtime ?b < mtime ?c" by simp
  have m: "mset [?a, ?b, ?c] = {#?a, ?b, ?c#}" by simp
  let ?t = "\<lambda>sd. if sd = (''pubmed'', []) then Some [?a, ?b, ?c] else None"
  have ex: "\<exists>removed. dedup_dir ''pubmed'' [] [?a, ?b, ?c] = (Some ?c, removed) \<and> mset removed = {#?a, ?b#}"
    using dedup_keeps_best[of "[?a, ?b, ?c]" "''pubmed''" "[]" ?a ?b ?c] ra rb rc t m by blast
  have one: "dedup_dir ''pubmed'' [] [\<lparr> path = ''a.json'', content = None, mtime = 300 \<rparr>] = (None, [])"
    using dedup_keeps_best[of "[\<lparr> path = ''a.json'', content = None, mtime = 300 \<rparr>]" "''pubmed''" "[]"]
    by simp
  have hyps: "(''pubmed'', []) \<in> set SOURCES \<and> ?t (''pubmed'', []) = Some [?a, ?b, ?c] \<and>
      1 < length [?a, ?b, ?c] \<and> distinct (map path [?a, ?b, ?c])"
    by (simp add: SOURCES_def)
  note c5 = dedup_keeps_best[of "[?a, ?b, ?c]" "''pubmed''" "[]" ?a ?b ?c ?t,
        THEN conjunct2, THEN conjunct2, THEN conjunct2, THEN conjunct2, THEN mp]
  from c5[OF hyps] obtain keep where
    k1: "fst (dedup_dir ''pubmed'' [] [?a, ?b, ?c]) = Some keep" and
    k2: "tree (cleanup_duplicate_raw_main ?t) (''pubmed'', []) = Some [keep]"
    by blast
  from ex k1 have "keep = ?c" by auto
  with k2 have main: "tree (cleanup_duplicate_raw_main ?t) (''pubmed'', []) = Some [?c]" by simp
  show ?thesis using ex one main by auto
qed












section \<open>Properties of the manifest pruner\<close>

lemma collect_kept_ids_eq:
  "collect_kept_ids raws K =
     K \<union> {fid. \<exists>doc. Some doc \<in> set raws \<and> header_fetch_id doc = Inr (Some fid)}"
proof (induction raws arbitrary: K)
  case Nil
  show ?case by simp
next
  case (Cons f fs)
  show ?case
  proof (cases f)
    case None
    then show ?thesis using Cons[of K] by auto
  next
    case (Some doc)
    show ?thesis
    proof (cases "header_fetch_id doc")
      case (Inl e)
      then show ?thesis using Some Cons[of K] by auto
    next
      case (Inr r)
      show ?thesis
      proof (cases r)
        case None
        then show ?thesis using Some Inr Cons[of K] by auto
      next
        case (Some fid)
        then show ?thesis using \<open>f = Some doc\<close> Inr Cons[of "insert fid K"] by auto
      qed
    qed
  qed
qed

lemma header_fetch_id_str:
  assumes "py_get doc ''_header'' (JObj []) = Inr h" and "py_get h ''fetch_id'' JNull = Inr (JStr fid)"
  shows "header_fetch_id doc = Inr (if fid = [] then None else Some (JStr fid))"
  using assms by (simp add: header_fetch_id_def bnd_def)

lemma path_stem_manifest: "path_stem (fid @ ''_manifest.json'') = fid @ ''_manifest''"
proof -
  have r: "rev (fid @ ''_manifest.json'') = ''nosj'' @ CHR ''.'' # rev (fid @ ''_manifest'')" by simp
  have t: "takeWhile (\<lambda>c. c \<noteq> CHR ''.'') (rev (fid @ ''_manifest.json'')) = ''nosj''"
    unfolding r by simp
  show ?thesis unfolding path_stem_def t by (simp add: Let_def)
qed

lemma no_overlap:
  assumes "prefix ''_manifest'' (fid @ ''_manifest'')" and "fid \<noteq> []"
  shows "sublist ''_manifest'' fid"
proof -
  define p where "p = ''_manifest''"
  have lp: "length p = 9" by (simp add: p_def)
  have p0: "p ! 0 = CHR ''_''" by (simp add: p_def)
  have pk: "\<And>k. 0 < k \<Longrightarrow> k < 9 \<Longrightarrow> p ! k \<noteq> CHR ''_''"
  proof -
    fix k :: nat assume "0 < k" "k < 9"
    then have "k \<in> {1, 2, 3, 4, 5, 6, 7, 8}" by auto
    then show "p ! k \<noteq> CHR ''_''" by (auto simp: p_def nth_Cons')
  qed
  from assms(1) obtain zs where z: "fid @ p = p @ zs" by (auto simp: prefix_def p_def)
  show ?thesis
  proof (cases "9 \<le> length fid")
    case True
    have "take 9 (fid @ p) = take 9 fid" using True by simp
    moreover have "take 9 (p @ zs) = p" using lp by simp
    ultimately have "take 9 fid = p" using z by simp
    then have "prefix p fid" by (metis take_is_prefix)
    then show ?thesis unfolding p_def by (rule prefix_imp_sublist)
  next
    case False
    define k where "k = length fid"
    have k: "0 < k" "k < 9" using False assms(2) by (auto simp: k_def)
    have "(fid @ p) ! k = p ! 0" by (simp add: k_def nth_append)
    moreover have "(p @ zs) ! k = p ! k" using k lp by (simp add: nth_append)
    ultimately have "p ! k = CHR ''_''" using z p0 by simp
    with pk[OF k] show ?thesis by simp
  qed
qed

lemma str_replace_suffix:
  "\<not> sublist ''_manifest'' fid \<Longrightarrow> str_replace ''_manifest'' [] (fid @ ''_manifest'') = fid"
proof (induction fid)
  case Nil
  show ?case by simp
next
  case (Cons c cs)
  define p where "p = ''_manifest''"
  have np: "\<not> prefix p (c # (cs @ p))"
    using no_overlap[of "c # cs"] Cons.prems unfolding p_def by auto
  have "\<not> sublist ''_manifest'' cs" using Cons.prems by (auto simp: sublist_Cons_right)
  from Cons.IH[OF this] have ih: "str_replace p [] (cs @ p) = cs" unfolding p_def .
  have "str_replace p [] (c # (cs @ p)) = c # str_replace p [] (cs @ p)"
    using np by (simp only: str_replace.simps simp_thms if_False)
  with ih show ?case unfolding p_def by simp
qed

lemma manifest_fid_named:
  "\<not> sublist ''_manifest'' fid \<Longrightarrow> manifest_fid (fid @ ''_manifest.json'') = fid"
  unfolding manifest_fid_def path_stem_manifest by (rule str_replace_suffix)

lemma prune_deleted_iff:
  "m \<in> set (fst (cleanup_metadata_main raws names)) \<longleftrightarrow>
     m \<in> set (glob_manifests names) \<and> JStr (manifest_fid m) \<notin> snd (cleanup_metadata_main raws names)"
  by (auto simp: cleanup_metadata_main_def Let_def)

lemma prune_keeps_named:
  assumes "Some doc \<in> set raws" and "py_get doc ''_header'' (JObj []) = Inr h"
      and "py_get h ''fetch_id'' JNull = Inr (JStr fid)" and "fid \<noteq> []"
      and "\<not> sublist ''_manifest'' fid"
  shows "manifest_name fid \<notin> set (fst (cleanup_metadata_main raws names))"
proof -
  have "header_fetch_id doc = Inr (Some (JStr fid))"
    using header_fetch_id_str[OF assms(2,3)] assms(4) by simp
  with assms(1) have "JStr fid \<in> collect_kept_ids raws {}"
    unfolding collect_kept_ids_eq by blast
  moreover have "manifest_fid (manifest_name fid) = fid"
    unfolding manifest_name_def using assms(5) by (rule manifest_fid_named)
  ultimately show ?thesis by (simp add: cleanup_metadata_main_def Let_def)
qed


section \<open>Properties of the index builder\<close>



lemma num_val_Some: "num_val y = Some n \<Longrightarrow> (y = JNum n \<or> (\<exists>b. y = JBool b \<and> n = (if b then 1 else 0)))"
  by (cases y) auto


lemma py_eq_num_iff: "num_val x \<noteq> None \<Longrightarrow> py_eq x y \<longleftrightarrow> num_val y = num_val x"
  by (cases x) auto


lemma py_eq_JArr:
  "py_eq (JArr xs) (JArr ys) \<longleftrightarrow>
     length xs = length ys \<and> (\<forall>i. i < length xs \<longrightarrow> py_eq (xs ! i) (ys ! i))"
  by (simp only: py_eq.simps json.case)



































end
